theory Spec2Isabelle
  imports Complex_Main "HOL-Library.Multiset"
begin

section \<open>Data model (src/utils/timeHelpers.ts)\<close>

text \<open>
  An \<^verbatim>\<open>Event\<close> carries its \<^verbatim>\<open>start\<close> and \<^verbatim>\<open>end\<close> as ISO-8601 UTC strings, and every
  function of the program reads them through \<^verbatim>\<open>new Date(s).getTime()\<close>. The model keeps
  the instant such a string denotes: an integer number of milliseconds since the epoch
  (a string that denotes no instant, an Invalid Date, is outside the model).
  The optional fields \<^verbatim>\<open>color\<close> and \<^verbatim>\<open>notes\<close> are options. \<^verbatim>\<open>Omit<Event, 'id'>\<close> is the
  record \<open>draft\<close>, and \<open>event\<close> extends it with the id, so that the selectors
  \<open>title\<close>, \<open>start\<close>, \<open>end_of\<close>, \<open>color\<close> and \<open>notes_of\<close> read both.
  (\<^verbatim>\<open>end\<close>, \<^verbatim>\<open>notes\<close> and \<^verbatim>\<open>id\<close> are taken in Isabelle: the fields are \<open>end_of\<close>, \<open>notes_of\<close>
  and \<open>id_of\<close>.)
\<close>

record draft =
  title :: string
  start :: int
  end_of :: int
  color :: "string option"
  notes_of :: "string option"

record event = draft +
  id_of :: string

section \<open>Event repository (src/utils/calendarRepo.local.ts)\<close>

text \<open>
  The repository keeps one item of \<^verbatim>\<open>localStorage\<close>, under the key \<^verbatim>\<open>events\<close>. The item is
  written by \<^verbatim>\<open>setItem(EVENTS_KEY, JSON.stringify(events))\<close> only, so it is in one of three
  states:
  \<^item> \<open>NoItem\<close>: \<^verbatim>\<open>getItem\<close> returns \<^verbatim>\<open>null\<close> (nothing was written yet), or the empty string;
    both make \<^verbatim>\<open>!stored\<close> true;
  \<^item> \<open>Items es\<close>: the item is the JSON text of the event array \<open>es\<close>, which
    \<^verbatim>\<open>JSON.parse\<close> gives back;
  \<^item> \<open>Corrupt\<close>: the item is a text on which \<^verbatim>\<open>JSON.parse\<close> throws; the exception is caught
    by the \<^verbatim>\<open>catch\<close> of the calling function.

  \<^verbatim>\<open>Result<T>\<close> is the sum \<open>string + T\<close>, with \<open>Inl\<close> for \<^verbatim>\<open>{ ok: false, error }\<close>. Every
  operation returns its result together with the storage it leaves. \<^verbatim>\<open>setItem\<close> is taken to
  succeed (no quota is modelled).
\<close>

datatype storage = NoItem | Items "event list" | Corrupt

type_synonym 'a result = "string + 'a"

text \<open>The list of events the repository holds: \<^verbatim>\<open>stored ? JSON.parse(stored) : []\<close>.\<close>

fun persisted :: "storage \<Rightarrow> event list option" where
  "persisted NoItem = Some []"
| "persisted (Items es) = Some es"
| "persisted Corrupt = None"

text \<open>The overlap test of \<^verbatim>\<open>getEventsInRange\<close>; the storage is only read.\<close>

fun getEventsInRange :: "int \<Rightarrow> int \<Rightarrow> storage \<Rightarrow> event list result" where
  "getEventsInRange rangeStart rangeEnd NoItem = Inr []"
| "getEventsInRange rangeStart rangeEnd (Items es) =
     Inr (filter (\<lambda>e. start e < rangeEnd \<and> end_of e > rangeStart) es)"
| "getEventsInRange rangeStart rangeEnd Corrupt = Inl ''Failed to read events''"

text \<open>
  \<^verbatim>\<open>createEvent\<close>: the id is the value of \<^verbatim>\<open>crypto.randomUUID()\<close>, which the model takes as
  the argument \<open>uuid\<close>. The storage is read and parsed first, the draft is validated
  next, and the new event \<^verbatim>\<open>{ ...event, id }\<close> is pushed at the end of the array.
\<close>

definition newEvent :: "draft \<Rightarrow> string \<Rightarrow> event" where
  "newEvent d uuid =
     \<lparr>title = title d, start = start d, end_of = end_of d, color = color d,
      notes_of = notes_of d, id_of = uuid\<rparr>"

fun createEvent :: "string \<Rightarrow> draft \<Rightarrow> storage \<Rightarrow> event result \<times> storage" where
  "createEvent uuid d Corrupt = (Inl ''Failed to create event'', Corrupt)"
| "createEvent uuid d st =
     (let events = (case st of Items es \<Rightarrow> es | _ \<Rightarrow> []) in
      if start d \<ge> end_of d then (Inl ''End time must be after start time'', st)
      else (Inr (newEvent d uuid), Items (events @ [newEvent d uuid])))"

text \<open>\<^verbatim>\<open>Array.prototype.findIndex\<close>: the first index whose element satisfies \<open>P\<close>, or \<open>-1\<close>.\<close>

fun findIndex :: "('a \<Rightarrow> bool) \<Rightarrow> 'a list \<Rightarrow> int" where
  "findIndex P [] = -1"
| "findIndex P (x # xs) =
     (if P x then 0 else (let i = findIndex P xs in if i = -1 then -1 else i + 1))"

text \<open>
  \<^verbatim>\<open>updateEvent\<close>: the guard \<^verbatim>\<open>if (!stored)\<close> comes first, then the parse, the validation,
  the search for the id, and the assignment \<^verbatim>\<open>events[index] = event\<close>.
\<close>

fun updateEvent :: "event \<Rightarrow> storage \<Rightarrow> event result \<times> storage" where
  "updateEvent ev NoItem = (Inl ''No events found'', NoItem)"
| "updateEvent ev Corrupt = (Inl ''Failed to update event'', Corrupt)"
| "updateEvent ev (Items events) =
     (if start ev \<ge> end_of ev then (Inl ''End time must be after start time'', Items events)
      else
        (let index = findIndex (\<lambda>e. id_of e = id_of ev) events in
         if index = -1 then (Inl ''Event not found'', Items events)
         else (Inr ev, Items (events[nat index := ev]))))"

text \<open>\<^verbatim>\<open>deleteEvent\<close>: nothing is written when there is no item; else the filtered array.\<close>

fun deleteEvent :: "string \<Rightarrow> storage \<Rightarrow> unit result \<times> storage" where
  "deleteEvent i NoItem = (Inr (), NoItem)"
| "deleteEvent i Corrupt = (Inl ''Failed to delete event'', Corrupt)"
| "deleteEvent i (Items events) = (Inr (), Items (filter (\<lambda>e. id_of e \<noteq> i) events))"

section \<open>Interval stacker (src/components/DayTimeline.tsx, the event-slot effect)\<close>

text \<open>
  The comparator handed to \<^verbatim>\<open>Array.prototype.sort\<close>: the difference of the starts when they
  differ, else the difference of the durations, the second event's first.
\<close>

definition compareEvents :: "event \<Rightarrow> event \<Rightarrow> int" where
  "compareEvents a b =
     (let startA = start a; startB = start b in
      if startA \<noteq> startB then startA - startB
      else
        (let durationA = end_of a - start a; durationB = end_of b - start b in
         durationB - durationA))"

text \<open>
  \<^verbatim>\<open>[...events].sort(cmp)\<close>: ECMAScript's sort is stable, and for a consistent comparator
  its result is the one stable sorted arrangement of the array, whatever algorithm the
  engine runs. Insertion from the right computes that arrangement: an element goes in
  front of the first element it does not compare greater than, so equal elements keep
  the order of the input.
\<close>

fun insertBy :: "('a \<Rightarrow> 'a \<Rightarrow> int) \<Rightarrow> 'a \<Rightarrow> 'a list \<Rightarrow> 'a list" where
  "insertBy cmp x [] = [x]"
| "insertBy cmp x (y # ys) = (if cmp x y \<le> 0 then x # y # ys else y # insertBy cmp x ys)"

definition sortWith :: "('a \<Rightarrow> 'a \<Rightarrow> int) \<Rightarrow> 'a list \<Rightarrow> 'a list" where
  "sortWith cmp xs = foldr (insertBy cmp) xs []"

text \<open>
  The body of \<^verbatim>\<open>sortedEvents.forEach\<close>, on the pair of the two variables it assigns,
  \<^verbatim>\<open>stacks\<close> and \<^verbatim>\<open>currentStack\<close>.
\<close>

definition stackStep :: "event list list \<times> event list \<Rightarrow> event \<Rightarrow> event list list \<times> event list" where
  "stackStep acc ev =
     (case acc of (stacks, currentStack) \<Rightarrow>
        if length currentStack > 0 then
          (let lastEvent = currentStack ! (length currentStack - 1) in
           if start ev < end_of lastEvent then (stacks, currentStack @ [ev])
           else (stacks @ [currentStack], [ev]))
        else (stacks, currentStack @ [ev]))"

text \<open>The effect as a whole: the value it passes to \<^verbatim>\<open>setEventSlots\<close>.\<close>

definition eventSlots :: "event list \<Rightarrow> event list list" where
  "eventSlots events =
     (let sortedEvents = sortWith compareEvents events in
      case foldl stackStep ([], []) sortedEvents of (stacks, currentStack) \<Rightarrow>
        if length currentStack > 0 then stacks @ [currentStack] else stacks)"

subsection \<open>The stacker as the specification words it\<close>

text \<open>
  The order of the sort: start ascending, and among equal starts the longer event first.
\<close>

definition precedes :: "event \<Rightarrow> event \<Rightarrow> bool" where
  "precedes a b =
     (start a < start b \<or>
      (start a = start b \<and> end_of a - start a \<ge> end_of b - start b))"

text \<open>
  The sweep of section 4.2, steps 2 and 3: one current stack; an event whose start is
  before the end of the last event placed in the current stack is appended to it; any
  other event closes the current stack and opens a new one, of which it is the only
  member; the last stack is closed and emitted at the end.
\<close>

fun spec_sweep :: "event list \<Rightarrow> event list \<Rightarrow> event list list" where
  "spec_sweep cur [] = [cur]"
| "spec_sweep cur (e # es) =
     (if start e < end_of (last cur) then spec_sweep (cur @ [e]) es else cur # spec_sweep [e] es)"

fun spec_stacker :: "event list \<Rightarrow> event list list" where
  "spec_stacker [] = []"
| "spec_stacker (e # es) = spec_sweep [e] es"

text \<open>
  A stack is chained when each of its events starts before the end of the event placed
  just before it; two neighbouring stacks are separated when the first event of the
  second does not start before the end of the last event of the first.
\<close>

fun chained :: "event list \<Rightarrow> bool" where
  "chained (a # b # r) = (start b < end_of a \<and> chained (b # r))"
| "chained _ = True"

fun separated :: "event list list \<Rightarrow> bool" where
  "separated (s # t # r) = (\<not> start (hd t) < end_of (last s) \<and> separated (t # r))"
| "separated _ = True"

section \<open>Time coordinate mapper and drag interpreter (src/components/DayTimeline.tsx)\<close>

text \<open>
  The props that fix the visible window. \<^verbatim>\<open>dateISO\<close> enters the handlers only through
  \<^verbatim>\<open>new Date(dateISO)\<close> followed by \<^verbatim>\<open>setHours(startHour, 0, 0, 0)\<close>, that is through the
  instant at which the local calendar day of that date begins: the model takes this
  instant, \<open>localMidnight\<close>, as an argument, and a local clock without daylight-saving
  shifts.
\<close>

record props =
  startHour :: int
  endHour :: int
  slotMinutes :: int

datatype drag_type = Move | ResizeTop | ResizeBottom

record drag_session =
  drag_id :: "string option"
  drag_type :: drag_type
  originalStart :: int
  originalEnd :: int
  initialY :: real

record timeline_state =
  dragging :: "drag_session option"
  ghostEvent :: "event option"

subsection \<open>JavaScript numbers\<close>

text \<open>
  Pixel coordinates and the minutes computed from them are JavaScript numbers, that is
  IEEE 754 doubles. The model keeps the real number a double stands for, and every
  operation \<^verbatim>\<open>-\<close>, \<^verbatim>\<open>*\<close>, \<^verbatim>\<open>/\<close> of the source on such numbers is the exact operation
  followed by \<open>roundDouble\<close>, the rounding to the nearest double, ties to the even
  significand. A double is an integer of less than 54 bits times a power of two whose
  exponent is at least -1074; \<open>ulpExponent x\<close> is the exponent of the doubles next to
  \<open>x\<close>, found by \<open>binade\<close> as the least exponent from -1074 on whose 53-bit multiples
  reach beyond \<open>x\<close>. Numbers of magnitude 2^1024 or more, which round to infinity, do
  not occur: they are outside the model. Instants, hours and whole minutes are integers
  far below 2^53, on which double arithmetic is exact: the model computes them in \<open>int\<close>.
\<close>

definition roundTiesToEven :: "real \<Rightarrow> int" where
  "roundTiesToEven x =
     (let f = \<lfloor>x\<rfloor>; r = x - real_of_int f in
      if r < 1 / 2 then f else if 1 / 2 < r then f + 1 else if even f then f else f + 1)"

fun binade :: "nat \<Rightarrow> int \<Rightarrow> real \<Rightarrow> int" where
  "binade 0 e x = e"
| "binade (Suc n) e x = (if x < 2 powi (e + 53) then e else binade n (e + 1) x)"

definition ulpExponent :: "real \<Rightarrow> int" where
  "ulpExponent x = binade 2045 (-1074) \<bar>x\<bar>"

definition roundDouble :: "real \<Rightarrow> real" where
  "roundDouble x =
     real_of_int (roundTiesToEven (x / 2 powi ulpExponent x)) * 2 powi ulpExponent x"

text \<open>
  The truncation toward zero that \<^verbatim>\<open>Date.prototype.setMinutes\<close> applies to its argument
  (ToIntegerOrInfinity), and date-fns' \<^verbatim>\<open>toInteger\<close> to an amount.
\<close>

definition toInteger :: "real \<Rightarrow> int" where
  "toInteger x = (if x < 0 then \<lceil>x\<rceil> else \<lfloor>x\<rfloor>)"

text \<open>
  \<^verbatim>\<open>Math.max(0, Math.min((y / 40) * slotMinutes, (endHour - startHour) * 60))\<close>, as both
  \<^verbatim>\<open>handleMouseMove\<close> and \<^verbatim>\<open>handleEmptySpaceClick\<close> compute it: a division and a
  multiplication of doubles, each rounded; \<^verbatim>\<open>Math.min\<close> and \<^verbatim>\<open>Math.max\<close> return one of their
  arguments and round nothing.
\<close>

definition minutesFromTop :: "props \<Rightarrow> real \<Rightarrow> real" where
  "minutesFromTop p y =
     max 0 (min (roundDouble (roundDouble (y / 40) * real_of_int (slotMinutes p)))
                (real_of_int ((endHour p - startHour p) * 60)))"

text \<open>
  \<^verbatim>\<open>newDate\<close>: the local day at \<^verbatim>\<open>startHour:00:00.000\<close>, then \<^verbatim>\<open>setMinutes(minutesFromTop)\<close>,
  which sets the minutes field to the truncated argument and carries into the hours.
\<close>

definition newDateAt :: "int \<Rightarrow> props \<Rightarrow> real \<Rightarrow> int" where
  "newDateAt localMidnight p m =
     localMidnight + startHour p * 3600000 + toInteger m * 60000"

text \<open>
  \<^verbatim>\<open>addMinutes\<close> of date-fns 2.x, the release line that goes with the \<^verbatim>\<open>date-fns-tz\<close>
  functions \<^verbatim>\<open>utcToZonedTime\<close> and \<^verbatim>\<open>zonedTimeToUtc\<close> imported by timeHelpers.ts: the amount
  is passed through \<^verbatim>\<open>toInteger\<close> and that many minutes are added in milliseconds. (Its
  documentation: positive decimals are rounded with \<^verbatim>\<open>Math.floor\<close>, negative ones with
  \<^verbatim>\<open>Math.ceil\<close>.) On an amount that is a whole number, the only case in which the result
  does not depend on this rounding, it adds exactly that many minutes.
\<close>

definition addMinutes :: "int \<Rightarrow> real \<Rightarrow> int" where
  "addMinutes date amount = date + toInteger amount * 60000"

text \<open>
  \<^verbatim>\<open>handleMouseDown\<close>, \<^verbatim>\<open>handleResizeTop\<close> and \<^verbatim>\<open>handleResizeBottom\<close> open a session and set
  the ghost to a copy of the event; their bodies differ in the type of the session only
  (\<open>beginDrag\<close>). \<^verbatim>\<open>handleMouseDown\<close> returns at once for a button other than the left one.
\<close>

definition beginDrag :: "drag_type \<Rightarrow> event \<Rightarrow> real \<Rightarrow> timeline_state \<Rightarrow> timeline_state" where
  "beginDrag ty ev clientY s =
     s\<lparr>dragging := Some \<lparr>drag_id = Some (id_of ev), drag_type = ty,
                            originalStart = start ev, originalEnd = end_of ev,
                            initialY = clientY\<rparr>,
       ghostEvent := Some ev\<rparr>"

definition handleMouseDown :: "int \<Rightarrow> event \<Rightarrow> real \<Rightarrow> timeline_state \<Rightarrow> timeline_state" where
  "handleMouseDown button ev clientY s =
     (if button \<noteq> 0 then s else beginDrag Move ev clientY s)"

definition handleResizeTop :: "event \<Rightarrow> real \<Rightarrow> timeline_state \<Rightarrow> timeline_state" where
  "handleResizeTop ev clientY s = beginDrag ResizeTop ev clientY s"

definition handleResizeBottom :: "event \<Rightarrow> real \<Rightarrow> timeline_state \<Rightarrow> timeline_state" where
  "handleResizeBottom ev clientY s = beginDrag ResizeBottom ev clientY s"

text \<open>
  \<^verbatim>\<open>handleMouseMove\<close>. \<open>rectTop\<close> is \<^verbatim>\<open>containerRef.current.getBoundingClientRect().top\<close>, and
  \<open>None\<close> when the ref holds no element; the handler returns at once unless a session, a
  ghost and the container are all there. The offset \<^verbatim>\<open>e.clientY - rect.top\<close> and the
  duration in minutes are results of double operations.
\<close>

definition handleMouseMove ::
  "props \<Rightarrow> int \<Rightarrow> real option \<Rightarrow> real \<Rightarrow> timeline_state \<Rightarrow> timeline_state" where
  "handleMouseMove p localMidnight rectTop clientY s =
     (case (dragging s, ghostEvent s, rectTop) of
        (Some d, Some g, Some rtop) \<Rightarrow>
          (let y = roundDouble (clientY - rtop);
               newDate = newDateAt localMidnight p (minutesFromTop p y);
               updatedGhostEvent =
                 (case drag_type d of
                    Move \<Rightarrow>
                      (let duration =
                             roundDouble (real_of_int (originalEnd d - originalStart d) / (1000 * 60))
                       in g\<lparr>start := newDate, end_of := addMinutes newDate duration\<rparr>)
                  | ResizeTop \<Rightarrow> (if newDate < end_of g then g\<lparr>start := newDate\<rparr> else g)
                  | ResizeBottom \<Rightarrow> (if newDate > start g then g\<lparr>end_of := newDate\<rparr> else g))
           in s\<lparr>ghostEvent := Some updatedGhostEvent\<rparr>)
      | _ \<Rightarrow> s)"

text \<open>A run of pointer moves, each with the container's top and the pointer's \<^verbatim>\<open>clientY\<close>.\<close>

definition pointerMoves ::
  "props \<Rightarrow> int \<Rightarrow> (real option \<times> real) list \<Rightarrow> timeline_state \<Rightarrow> timeline_state" where
  "pointerMoves p localMidnight moves s =
     foldl (\<lambda>s' (rectTop, clientY). handleMouseMove p localMidnight rectTop clientY s') s moves"

text \<open>
  \<^verbatim>\<open>handleEmptySpaceClick\<close>: the draft it hands to \<^verbatim>\<open>onCreate\<close>, or nothing when the click was
  on a child (\<^verbatim>\<open>e.target !== e.currentTarget\<close>) or there is no container.
\<close>

definition handleEmptySpaceClick ::
  "props \<Rightarrow> int \<Rightarrow> bool \<Rightarrow> real option \<Rightarrow> real \<Rightarrow> draft option" where
  "handleEmptySpaceClick p localMidnight onTarget rectTop clientY =
     (if \<not> onTarget then None
      else case rectTop of
        None \<Rightarrow> None
      | Some rtop \<Rightarrow>
          (let y = roundDouble (clientY - rtop);
               newDate = newDateAt localMidnight p (minutesFromTop p y);
               endDate = addMinutes newDate 30
           in Some \<lparr>title = ''New Event'', start = newDate, end_of = endDate,
                     color = None, notes_of = None\<rparr>))"




section \<open>Fixtures\<close>

text \<open>
  Events of one day, 2024-01-01 (UTC), given by their id and by the minutes of the day at
  which they start and end.
\<close>

definition fixtureEvent :: "string \<Rightarrow> int \<Rightarrow> int \<Rightarrow> event" where
  "fixtureEvent i startMin endMin =
     \<lparr>title = ''Fixture'', start = 1704067200000 + startMin * 60000,
      end_of = 1704067200000 + endMin * 60000, color = None, notes_of = None, id_of = i\<rparr>"

definition fixtureDraft :: "int \<Rightarrow> int \<Rightarrow> draft" where
  "fixtureDraft startMin endMin =
     \<lparr>title = ''Fixture'', start = 1704067200000 + startMin * 60000,
      end_of = 1704067200000 + endMin * 60000, color = None, notes_of = None\<rparr>"

text \<open>
  The defaults of the component's props, props for a window of the whole day, the state
  before any drag, a day whose local midnight is 2024-01-01T00:00Z (a local clock on UTC),
  and an event of ninety seconds.
\<close>

definition defaultProps :: props where
  "defaultProps = \<lparr>startHour = 5, endHour = 23, slotMinutes = 15\<rparr>"

definition fullDayProps :: props where
  "fullDayProps = \<lparr>startHour = 0, endHour = 24, slotMinutes = 15\<rparr>"

definition idle :: timeline_state where
  "idle = \<lparr>dragging = None, ghostEvent = None\<rparr>"

definition fixtureMidnight :: int where
  "fixtureMidnight = 1704067200000"

definition ninetySeconds :: event where
  "ninetySeconds =
     \<lparr>title = ''Fixture'', start = 1704067200000 + 540 * 60000,
      end_of = 1704067200000 + 540 * 60000 + 90000, color = None, notes_of = None,
      id_of = ''s''\<rparr>"

section \<open>The repository: results and frame\<close>

lemma findIndex_ge: "findIndex P xs \<ge> -1"
  by (induction xs) (auto simp: Let_def)

lemma findIndex_none: "findIndex P xs = -1 \<longleftrightarrow> (\<forall>x\<in>set xs. \<not> P x)"
proof (induction xs)
  case Nil
  show ?case by simp
next
  case (Cons x xs)
  have "findIndex P xs + 1 \<noteq> -1"
    using findIndex_ge [of P xs] by linarith
  with Cons show ?case by (auto simp: Let_def)
qed

text \<open>When \<^verbatim>\<open>findIndex\<close> finds an element, it is the first that satisfies the test.\<close>

lemma findIndex_found:
  "findIndex P xs \<noteq> -1 \<Longrightarrow>
     0 \<le> findIndex P xs \<and> nat (findIndex P xs) < length xs \<and> P (xs ! nat (findIndex P xs))
     \<and> (\<forall>j < nat (findIndex P xs). \<not> P (xs ! j))"
proof (induction xs)
  case Nil
  then show ?case by simp
next
  case (Cons x xs)
  show ?case
  proof (cases "P x")
    case True
    then show ?thesis by simp
  next
    case False
    with Cons.prems have ne: "findIndex P xs \<noteq> -1" by (auto simp: Let_def split: if_splits)
    from Cons.IH [OF ne] have ih: "0 \<le> findIndex P xs" "nat (findIndex P xs) < length xs"
      "P (xs ! nat (findIndex P xs))" "\<forall>j < nat (findIndex P xs). \<not> P (xs ! j)" by auto
    have eq: "findIndex P (x # xs) = findIndex P xs + 1"
      using False ne by (simp add: Let_def)
    have n: "nat (findIndex P xs + 1) = Suc (nat (findIndex P xs))"
      using ih(1) by simp
    show ?thesis
      unfolding eq n using ih False by (auto simp: less_Suc_eq_0_disj)
  qed
qed

text \<open>
  An item that does not parse is a storage error: every operation reports its own failure
  and leaves the item as it is.
\<close>

lemma corrupt_item_reported:
  "getEventsInRange a b Corrupt = Inl ''Failed to read events'' \<and>
   createEvent uuid d Corrupt = (Inl ''Failed to create event'', Corrupt) \<and>
   updateEvent ev Corrupt = (Inl ''Failed to update event'', Corrupt) \<and>
   deleteEvent i Corrupt = (Inl ''Failed to delete event'', Corrupt)"
  by simp

text \<open>
  Claim C8. For every id, \<^verbatim>\<open>deleteEvent\<close> on a storage that holds an event list returns
  success, whether or not an event has the id. The list it leaves is the old one without
  the events of that id, the others unchanged and in their order; when no event has the
  id the storage is left as it was.
\<close>

theorem deleteEvent_succeeds_and_filters:
  assumes "persisted st = Some es"
  shows "fst (deleteEvent i st) = Inr () \<and>
         persisted (snd (deleteEvent i st)) = Some (filter (\<lambda>e. id_of e \<noteq> i) es) \<and>
         (i \<notin> id_of ` set es \<longrightarrow> snd (deleteEvent i st) = st)"
proof (cases st)
  case NoItem
  with assms show ?thesis by auto
next
  case (Items events)
  with assms have "events = es" by simp
  moreover have "i \<notin> id_of ` set es \<Longrightarrow> filter (\<lambda>e. id_of e \<noteq> i) es = es"
    by (rule filter_True) auto
  ultimately show ?thesis using Items by auto
next
  case Corrupt
  with assms show ?thesis by simp
qed

theorem deleteEvent_succeeds_and_filters_witness:
  "persisted (Items [fixtureEvent ''a'' 540 600, fixtureEvent ''b'' 570 585, fixtureEvent ''a'' 630 660])
     = Some [fixtureEvent ''a'' 540 600, fixtureEvent ''b'' 570 585, fixtureEvent ''a'' 630 660] \<and>
   deleteEvent ''a'' (Items [fixtureEvent ''a'' 540 600, fixtureEvent ''b'' 570 585, fixtureEvent ''a'' 630 660])
     = (Inr (), Items [fixtureEvent ''b'' 570 585]) \<and>
   ''z'' \<notin> id_of ` set [fixtureEvent ''a'' 540 600, fixtureEvent ''b'' 570 585, fixtureEvent ''a'' 630 660] \<and>
   deleteEvent ''z'' (Items [fixtureEvent ''a'' 540 600, fixtureEvent ''b'' 570 585, fixtureEvent ''a'' 630 660])
     = (Inr (), Items [fixtureEvent ''a'' 540 600, fixtureEvent ''b'' 570 585, fixtureEvent ''a'' 630 660]) \<and>
   deleteEvent ''z'' NoItem = (Inr (), NoItem)"
proof -
  let ?es = "[fixtureEvent ''a'' 540 600, fixtureEvent ''b'' 570 585, fixtureEvent ''a'' 630 660]"
  have p: "persisted (Items ?es) = Some ?es" "persisted NoItem = Some []" by simp_all
  have z: "''z'' \<notin> id_of ` set ?es" by (simp add: fixtureEvent_def)
  have a: "filter (\<lambda>e. id_of e \<noteq> ''a'') ?es = [fixtureEvent ''b'' 570 585]"
    by (simp add: fixtureEvent_def)
  from deleteEvent_succeeds_and_filters [OF p(1), of "''a''"]
  have "deleteEvent ''a'' (Items ?es) = (Inr (), Items [fixtureEvent ''b'' 570 585])"
    unfolding a by (simp add: prod_eq_iff)
  moreover from deleteEvent_succeeds_and_filters [OF p(1), of "''z''"] z
  have "deleteEvent ''z'' (Items ?es) = (Inr (), Items ?es)"
    by (simp add: prod_eq_iff)
  moreover from deleteEvent_succeeds_and_filters [OF p(2), of "''z''"]
  have "deleteEvent ''z'' NoItem = (Inr (), NoItem)"
    by (simp add: prod_eq_iff)
  ultimately show ?thesis using p(1) z by simp
qed

text \<open>
  Claim C10. When \<^verbatim>\<open>createEvent\<close> succeeds, the storage holds the list it held before with
  the new event appended at its end, and nothing else; the new event has the title, start,
  end, color and notes of the draft and the id that \<^verbatim>\<open>crypto.randomUUID()\<close> generated for
  this call. (It succeeds only on a draft whose start is before its end.)
\<close>

theorem createEvent_appends:
  assumes "createEvent uuid d st = (Inr ev, st')"
  shows "\<exists>es. persisted st = Some es \<and> st' = Items (es @ [ev]) \<and>
           title ev = title d \<and> start ev = start d \<and> end_of ev = end_of d \<and>
           color ev = color d \<and> notes_of ev = notes_of d \<and> id_of ev = uuid \<and>
           start d < end_of d"
proof (cases st)
  case NoItem
  with assms show ?thesis
    by (auto simp: Let_def newEvent_def split: if_splits)
next
  case (Items events)
  with assms show ?thesis
    by (auto simp: Let_def newEvent_def split: if_splits)
next
  case Corrupt
  with assms show ?thesis by simp
qed

theorem createEvent_appends_witness:
  "createEvent ''u1'' (fixtureDraft 540 570) (Items [fixtureEvent ''a'' 600 660])
     = (Inr (fixtureEvent ''u1'' 540 570), Items [fixtureEvent ''a'' 600 660, fixtureEvent ''u1'' 540 570]) \<and>
   (\<exists>es. persisted (Items [fixtureEvent ''a'' 600 660]) = Some es \<and>
      Items [fixtureEvent ''a'' 600 660, fixtureEvent ''u1'' 540 570] = Items (es @ [fixtureEvent ''u1'' 540 570]) \<and>
      title (fixtureEvent ''u1'' 540 570) = title (fixtureDraft 540 570) \<and>
      id_of (fixtureEvent ''u1'' 540 570) = ''u1'')"
proof -
  have run: "createEvent ''u1'' (fixtureDraft 540 570) (Items [fixtureEvent ''a'' 600 660])
     = (Inr (fixtureEvent ''u1'' 540 570), Items [fixtureEvent ''a'' 600 660, fixtureEvent ''u1'' 540 570])"
    by (simp add: fixtureDraft_def fixtureEvent_def newEvent_def)
  from createEvent_appends [OF run] run show ?thesis by blast
qed

text \<open>\<^verbatim>\<open>createEvent\<close> fails on an unparsable item and on an invalid draft, and only then.\<close>

lemma createEvent_fails_iff:
  "isl (fst (createEvent uuid d st)) \<longleftrightarrow> st = Corrupt \<or> end_of d \<le> start d"
  by (cases st) (auto simp: Let_def)

text \<open>
  Claim C2, as the code has it. A draft or an event whose end is not after its start is
  never written: both operations fail and leave the storage as it was. \<^verbatim>\<open>createEvent\<close>
  returns the validation error on every storage that holds an event list; \<^verbatim>\<open>updateEvent\<close>
  returns it when an event array is stored, and \<^verbatim>\<open>No events found\<close> when no item is stored,
  since its guard \<^verbatim>\<open>if (!stored)\<close> stands before the validation.
\<close>

theorem invalid_interval_rejected:
  assumes "end_of d \<le> start d" and "end_of ev \<le> start ev"
  shows "(st \<noteq> Corrupt \<longrightarrow> fst (createEvent uuid d st) = Inl ''End time must be after start time'') \<and>
         snd (createEvent uuid d st) = st \<and>
         fst (updateEvent ev (Items es)) = Inl ''End time must be after start time'' \<and>
         fst (updateEvent ev NoItem) = Inl ''No events found'' \<and>
         isl (fst (updateEvent ev st)) \<and>
         snd (updateEvent ev st) = st"
  using assms by (cases st) (auto simp: Let_def)

theorem invalid_interval_rejected_witness:
  "end_of (fixtureDraft 600 540) \<le> start (fixtureDraft 600 540) \<and>
   end_of (fixtureEvent ''a'' 600 600) \<le> start (fixtureEvent ''a'' 600 600) \<and>
   createEvent ''u1'' (fixtureDraft 600 540) (Items [fixtureEvent ''a'' 540 600])
     = (Inl ''End time must be after start time'', Items [fixtureEvent ''a'' 540 600]) \<and>
   updateEvent (fixtureEvent ''a'' 600 600) (Items [fixtureEvent ''a'' 540 600])
     = (Inl ''End time must be after start time'', Items [fixtureEvent ''a'' 540 600])"
proof -
  have h: "end_of (fixtureDraft 600 540) \<le> start (fixtureDraft 600 540)"
    "end_of (fixtureEvent ''a'' 600 600) \<le> start (fixtureEvent ''a'' 600 600)"
    by (simp_all add: fixtureDraft_def fixtureEvent_def)
  from invalid_interval_rejected [OF h, of "Items [fixtureEvent ''a'' 540 600]" "''u1''"
      "[fixtureEvent ''a'' 540 600]"]
  show ?thesis using h by (simp add: prod_eq_iff)
qed

text \<open>
  Claim C2 as stated fails: on a storage to which nothing was written yet (its event list
  is empty), \<^verbatim>\<open>updateEvent\<close> with an event that ends before it starts does not return the
  validation error.
\<close>

theorem updateEvent_invalid_on_fresh_storage:
  "end_of (fixtureEvent ''a'' 600 540) \<le> start (fixtureEvent ''a'' 600 540) \<and>
   persisted NoItem = Some [] \<and>
   fst (updateEvent (fixtureEvent ''a'' 600 540) NoItem) \<noteq> Inl ''End time must be after start time''"
  by (simp add: fixtureEvent_def)

text \<open>
  Claim C7, as the code has it. For an event whose start is before its end and whose id
  no stored event has, \<^verbatim>\<open>updateEvent\<close> returns \<^verbatim>\<open>Event not found\<close> when an event array is
  stored (the empty array \<^verbatim>\<open>[]\<close> included) and \<^verbatim>\<open>No events found\<close> when no item is stored;
  the storage is left as it was in both cases.
\<close>

theorem updateEvent_unknown_id:
  assumes "start ev < end_of ev" and "id_of ev \<notin> id_of ` set es"
  shows "updateEvent ev (Items es) = (Inl ''Event not found'', Items es) \<and>
         updateEvent ev NoItem = (Inl ''No events found'', NoItem)"
proof -
  have "findIndex (\<lambda>e. id_of e = id_of ev) es = -1"
    unfolding findIndex_none using assms(2) by (metis image_eqI)
  with assms(1) show ?thesis by simp
qed

theorem updateEvent_unknown_id_witness:
  "start (fixtureEvent ''z'' 540 600) < end_of (fixtureEvent ''z'' 540 600) \<and>
   ''z'' \<notin> id_of ` set [fixtureEvent ''a'' 540 600] \<and>
   updateEvent (fixtureEvent ''z'' 540 600) (Items [fixtureEvent ''a'' 540 600])
     = (Inl ''Event not found'', Items [fixtureEvent ''a'' 540 600]) \<and>
   updateEvent (fixtureEvent ''z'' 540 600) (Items []) = (Inl ''Event not found'', Items [])"
proof -
  have h: "start (fixtureEvent ''z'' 540 600) < end_of (fixtureEvent ''z'' 540 600)"
    "id_of (fixtureEvent ''z'' 540 600) \<notin> id_of ` set [fixtureEvent ''a'' 540 600]"
    "id_of (fixtureEvent ''z'' 540 600) \<notin> id_of ` set []"
    by (simp_all add: fixtureEvent_def)
  have z: "id_of (fixtureEvent ''z'' 540 600) = ''z''" by (simp add: fixtureEvent_def)
  from updateEvent_unknown_id [OF h(1) h(2)] updateEvent_unknown_id [OF h(1) h(3)] h
  show ?thesis unfolding z by simp
qed

text \<open>
  Claim C7 as stated fails when the persisted list is empty because nothing was written
  yet: the error is \<^verbatim>\<open>No events found\<close>, not \<^verbatim>\<open>Event not found\<close>.
\<close>

theorem updateEvent_unknown_id_on_fresh_storage:
  "start (fixtureEvent ''z'' 540 600) < end_of (fixtureEvent ''z'' 540 600) \<and>
   persisted NoItem = Some [] \<and>
   ''z'' \<notin> id_of ` set ([] :: event list) \<and>
   fst (updateEvent (fixtureEvent ''z'' 540 600) NoItem) \<noteq> Inl ''Event not found''"
  by (simp add: fixtureEvent_def)

text \<open>A valid event whose id is stored replaces the first stored event of that id.\<close>

lemma updateEvent_replaces_first:
  assumes "start ev < end_of ev" and "id_of ev \<in> id_of ` set es"
  shows "\<exists>k < length es. id_of (es ! k) = id_of ev \<and> (\<forall>j<k. id_of (es ! j) \<noteq> id_of ev) \<and>
           updateEvent ev (Items es) = (Inr ev, Items (es[k := ev]))"
proof -
  let ?i = "findIndex (\<lambda>e. id_of e = id_of ev) es"
  have ne: "?i \<noteq> -1" unfolding findIndex_none using assms(2) by (auto simp: image_iff)
  from findIndex_found [OF ne] have f: "nat ?i < length es" "id_of (es ! nat ?i) = id_of ev"
    "\<forall>j < nat ?i. id_of (es ! j) \<noteq> id_of ev" by auto
  have "updateEvent ev (Items es) = (Inr ev, Items (es[nat ?i := ev]))"
    using assms(1) ne by (simp add: Let_def)
  with f show ?thesis by blast
qed

section \<open>The interval stacker: sort, sweep, stacks\<close>

text \<open>The comparator is not positive exactly on the pairs in the order of the sort.\<close>

lemma compareEvents_le: "compareEvents a b \<le> 0 \<longleftrightarrow> precedes a b"
  by (auto simp: compareEvents_def precedes_def Let_def)

lemma precedes_total: "\<not> precedes a b \<Longrightarrow> precedes b a"
  by (auto simp: precedes_def)

lemma precedes_trans: "precedes a b \<Longrightarrow> precedes b c \<Longrightarrow> precedes a c"
  by (auto simp: precedes_def)

lemma mset_insertBy: "mset (insertBy cmp x ys) = add_mset x (mset ys)"
  by (induction ys) auto

lemma set_insertBy: "set (insertBy cmp x ys) = insert x (set ys)"
  by (induction ys) auto

lemma mset_sortWith: "mset (sortWith cmp xs) = mset xs"
  unfolding sortWith_def by (induction xs) (auto simp: mset_insertBy)

lemma sorted_insertBy:
  "sorted_wrt precedes ys \<Longrightarrow> sorted_wrt precedes (insertBy compareEvents x ys)"
proof (induction ys)
  case Nil
  show ?case by simp
next
  case (Cons y ys)
  show ?case
  proof (cases "compareEvents x y \<le> 0")
    case True
    then have xy: "precedes x y" by (simp add: compareEvents_le)
    have "\<forall>z\<in>set ys. precedes x z"
      using Cons.prems xy by (auto intro: precedes_trans)
    with True xy Cons.prems show ?thesis by simp
  next
    case False
    then have "precedes y x" by (simp add: compareEvents_le precedes_total)
    with False Cons show ?thesis by (auto simp: set_insertBy)
  qed
qed

lemma sorted_sortWith: "sorted_wrt precedes (sortWith compareEvents xs)"
  unfolding sortWith_def by (induction xs) (auto simp: sorted_insertBy)

text \<open>
  The sort is stable: events with the same start and the same end keep the order they
  have in the input.
\<close>

lemma filter_insertBy:
  assumes "\<And>y. P x \<Longrightarrow> P y \<Longrightarrow> cmp x y \<le> 0"
  shows "filter P (insertBy cmp x ys) = (if P x then x # filter P ys else filter P ys)"
  using assms by (induction ys) auto

lemma sortWith_stable:
  "filter (\<lambda>e. start e = s \<and> end_of e = t) (sortWith compareEvents xs)
     = filter (\<lambda>e. start e = s \<and> end_of e = t) xs"
proof (induction xs)
  case Nil
  show ?case by (simp add: sortWith_def)
next
  case (Cons x xs)
  have "sortWith compareEvents (x # xs) = insertBy compareEvents x (sortWith compareEvents xs)"
    by (simp add: sortWith_def)
  moreover have "\<And>y. start x = s \<and> end_of x = t \<Longrightarrow> start y = s \<and> end_of y = t
        \<Longrightarrow> compareEvents x y \<le> 0"
    by (simp add: compareEvents_def)
  ultimately show ?case
    using Cons.IH by (simp add: filter_insertBy)
qed

text \<open>
  The loop of the source, with its two variables, computes the sweep of the
  specification: the stacks closed so far, followed by the sweep of the rest from the
  current stack.
\<close>

lemma foldl_stackStep_spec_sweep:
  "cur \<noteq> [] \<Longrightarrow>
     (case foldl stackStep (st, cur) xs of (stacks, currentStack) \<Rightarrow>
        if length currentStack > 0 then stacks @ [currentStack] else stacks)
     = st @ spec_sweep cur xs"
proof (induction xs arbitrary: st cur)
  case Nil
  then show ?case by simp
next
  case (Cons e es)
  have l: "cur ! (length cur - 1) = last cur"
    using Cons.prems by (simp add: last_conv_nth)
  show ?case
  proof (cases "start e < end_of (last cur)")
    case True
    then have "stackStep (st, cur) e = (st, cur @ [e])"
      using Cons.prems l by (simp add: stackStep_def)
    with Cons.IH [of "cur @ [e]" st] True show ?thesis by simp
  next
    case False
    then have "stackStep (st, cur) e = (st @ [cur], [e])"
      using Cons.prems l by (simp add: stackStep_def)
    with Cons.IH [of "[e]" "st @ [cur]"] False show ?thesis by simp
  qed
qed

lemma eventSlots_spec_stacker: "eventSlots events = spec_stacker (sortWith compareEvents events)"
proof (cases "sortWith compareEvents events")
  case Nil
  then show ?thesis by (simp add: eventSlots_def)
next
  case (Cons e es)
  have "stackStep ([], []) e = ([], [e])" by (simp add: stackStep_def)
  with foldl_stackStep_spec_sweep [of "[e]" "[]" es] Cons show ?thesis
    by (simp add: eventSlots_def)
qed

lemma concat_spec_sweep: "concat (spec_sweep cur xs) = cur @ xs"
  by (induction xs arbitrary: cur) auto

lemma concat_spec_stacker: "concat (spec_stacker xs) = xs"
  by (cases xs) (auto simp: concat_spec_sweep)

lemma spec_sweep_nonempty: "cur \<noteq> [] \<Longrightarrow> [] \<notin> set (spec_sweep cur xs)"
  by (induction xs arbitrary: cur) auto

lemma chained_snoc:
  "chained cur \<Longrightarrow> cur \<noteq> [] \<Longrightarrow> start e < end_of (last cur) \<Longrightarrow> chained (cur @ [e])"
  by (induction cur rule: chained.induct) auto

lemma spec_sweep_chained: "chained cur \<Longrightarrow> cur \<noteq> [] \<Longrightarrow> \<forall>s\<in>set (spec_sweep cur xs). chained s"
proof (induction xs arbitrary: cur)
  case Nil
  then show ?case by simp
next
  case (Cons e es)
  show ?case
  proof (cases "start e < end_of (last cur)")
    case True
    with Cons.prems have "chained (cur @ [e])" by (simp add: chained_snoc)
    with Cons.IH [of "cur @ [e]"] True show ?thesis by simp
  next
    case False
    with Cons.IH [of "[e]"] Cons.prems show ?thesis by simp
  qed
qed

lemma spec_sweep_head: "cur \<noteq> [] \<Longrightarrow> \<exists>t r. spec_sweep cur xs = t # r \<and> t \<noteq> [] \<and> hd t = hd cur"
proof (induction xs arbitrary: cur)
  case Nil
  then show ?case by simp
next
  case (Cons e es)
  show ?case
  proof (cases "start e < end_of (last cur)")
    case True
    with Cons.IH [of "cur @ [e]"] Cons.prems show ?thesis by simp
  next
    case False
    with Cons.prems show ?thesis by simp
  qed
qed

lemma spec_sweep_separated: "cur \<noteq> [] \<Longrightarrow> separated (spec_sweep cur xs)"
proof (induction xs arbitrary: cur)
  case Nil
  show ?case by simp
next
  case (Cons e es)
  show ?case
  proof (cases "start e < end_of (last cur)")
    case True
    with Cons.IH [of "cur @ [e]"] show ?thesis by simp
  next
    case False
    obtain t r where tr: "spec_sweep [e] es = t # r" "hd t = hd [e]"
      using spec_sweep_head [of "[e]" es] by auto
    with Cons.IH [of "[e]"] False show ?thesis by simp
  qed
qed

lemma sorted_wrt_concat_member:
  "sorted_wrt P (concat xss) \<Longrightarrow> xs \<in> set xss \<Longrightarrow> sorted_wrt P xs"
  by (induction xss) (auto simp: sorted_wrt_append)

text \<open>
  Claim C1. The stacker sorts the events by start ascending, ties by duration descending,
  and sweeps the sorted list with the chained test: its stacks are consecutive pieces of
  the sorted list, none empty; inside a stack every event starts before the end of the
  event placed just before it (and is compared with no other), and a stack ends exactly
  where the next event does not start before the end of the last one placed. The events
  09:00-10:00, 09:30-09:45 and 10:30-11:00 of one day give the two stacks
  [09:00-10:00, 09:30-09:45] and [10:30-11:00], in that order.
\<close>

theorem stacker_sorts_then_sweeps:
  "eventSlots events = spec_stacker (sortWith compareEvents events) \<and>
   sorted_wrt precedes (sortWith compareEvents events) \<and>
   concat (eventSlots events) = sortWith compareEvents events \<and>
   (\<forall>s\<in>set (eventSlots events). s \<noteq> [] \<and> chained s) \<and>
   separated (eventSlots events) \<and>
   eventSlots [fixtureEvent ''a'' 540 600, fixtureEvent ''b'' 570 585, fixtureEvent ''c'' 630 660]
     = [[fixtureEvent ''a'' 540 600, fixtureEvent ''b'' 570 585], [fixtureEvent ''c'' 630 660]]"
proof -
  let ?sorted = "sortWith compareEvents events"
  have ne: "\<forall>s\<in>set (spec_stacker ?sorted). s \<noteq> [] \<and> chained s"
  proof (cases ?sorted)
    case Nil
    then show ?thesis by simp
  next
    case (Cons e es)
    then show ?thesis
      using spec_sweep_nonempty [of "[e]" es] spec_sweep_chained [of "[e]" es] by auto
  qed
  have sep: "separated (spec_stacker ?sorted)"
    by (cases ?sorted) (auto simp: spec_sweep_separated)
  have fixture: "eventSlots [fixtureEvent ''a'' 540 600, fixtureEvent ''b'' 570 585, fixtureEvent ''c'' 630 660]
     = [[fixtureEvent ''a'' 540 600, fixtureEvent ''b'' 570 585], [fixtureEvent ''c'' 630 660]]"
    by (simp add: eventSlots_def sortWith_def compareEvents_def stackStep_def fixtureEvent_def)
  show ?thesis
    using ne sep fixture
    by (simp add: eventSlots_spec_stacker concat_spec_stacker sorted_sortWith)
qed

theorem stacker_sorts_then_sweeps_witness:
  "eventSlots [fixtureEvent ''c'' 630 660, fixtureEvent ''b'' 570 585, fixtureEvent ''a'' 540 600]
     = [[fixtureEvent ''a'' 540 600, fixtureEvent ''b'' 570 585], [fixtureEvent ''c'' 630 660]] \<and>
   [fixtureEvent ''a'' 540 600, fixtureEvent ''b'' 570 585]
     \<in> set (eventSlots [fixtureEvent ''c'' 630 660, fixtureEvent ''b'' 570 585, fixtureEvent ''a'' 540 600]) \<and>
   chained [fixtureEvent ''a'' 540 600, fixtureEvent ''b'' 570 585] \<and>
   separated [[fixtureEvent ''a'' 540 600, fixtureEvent ''b'' 570 585], [fixtureEvent ''c'' 630 660]]"
proof -
  have run: "eventSlots [fixtureEvent ''c'' 630 660, fixtureEvent ''b'' 570 585, fixtureEvent ''a'' 540 600]
     = [[fixtureEvent ''a'' 540 600, fixtureEvent ''b'' 570 585], [fixtureEvent ''c'' 630 660]]"
    by (simp add: eventSlots_def sortWith_def compareEvents_def stackStep_def fixtureEvent_def)
  note t = stacker_sorts_then_sweeps
    [of "[fixtureEvent ''c'' 630 660, fixtureEvent ''b'' 570 585, fixtureEvent ''a'' 540 600]"]
  from t have "\<forall>s\<in>set (eventSlots [fixtureEvent ''c'' 630 660, fixtureEvent ''b'' 570 585,
        fixtureEvent ''a'' 540 600]). s \<noteq> [] \<and> chained s"
    by (elim conjE)
  moreover from t have "separated (eventSlots [fixtureEvent ''c'' 630 660,
        fixtureEvent ''b'' 570 585, fixtureEvent ''a'' 540 600])"
    by (elim conjE)
  ultimately show ?thesis unfolding run by simp
qed

text \<open>
  Claim C9. For every list of events, the concatenation of the stacks is a permutation of
  the input (no event dropped or duplicated), it is in the order of the sort, and so is
  every stack.
\<close>

theorem eventSlots_permutation:
  "mset (concat (eventSlots events)) = mset events \<and>
   length (concat (eventSlots events)) = length events \<and>
   sorted_wrt precedes (concat (eventSlots events)) \<and>
   (\<forall>s\<in>set (eventSlots events). sorted_wrt precedes s)"
proof -
  have c: "concat (eventSlots events) = sortWith compareEvents events"
    by (simp add: eventSlots_spec_stacker concat_spec_stacker)
  have m: "mset (concat (eventSlots events)) = mset events"
    by (simp add: c mset_sortWith)
  have s: "sorted_wrt precedes (concat (eventSlots events))"
    by (simp add: c sorted_sortWith)
  have "\<forall>s\<in>set (eventSlots events). sorted_wrt precedes s"
    using s by (blast intro: sorted_wrt_concat_member)
  moreover have "length (concat (eventSlots events)) = length events"
    using m by (metis size_mset)
  ultimately show ?thesis using m s by simp
qed


theorem eventSlots_permutation_witness:
  "eventSlots [fixtureEvent ''b'' 570 585, fixtureEvent ''d'' 540 570, fixtureEvent ''a'' 540 600]
     = [[fixtureEvent ''a'' 540 600, fixtureEvent ''d'' 540 570], [fixtureEvent ''b'' 570 585]] \<and>
   mset [fixtureEvent ''a'' 540 600, fixtureEvent ''d'' 540 570, fixtureEvent ''b'' 570 585]
     = mset [fixtureEvent ''b'' 570 585, fixtureEvent ''d'' 540 570, fixtureEvent ''a'' 540 600] \<and>
   [fixtureEvent ''a'' 540 600, fixtureEvent ''d'' 540 570]
     \<in> set (eventSlots [fixtureEvent ''b'' 570 585, fixtureEvent ''d'' 540 570, fixtureEvent ''a'' 540 600]) \<and>
   sorted_wrt precedes [fixtureEvent ''a'' 540 600, fixtureEvent ''d'' 540 570]"
proof -
  have run: "eventSlots [fixtureEvent ''b'' 570 585, fixtureEvent ''d'' 540 570, fixtureEvent ''a'' 540 600]
     = [[fixtureEvent ''a'' 540 600, fixtureEvent ''d'' 540 570], [fixtureEvent ''b'' 570 585]]"
    by (simp add: eventSlots_def sortWith_def compareEvents_def stackStep_def fixtureEvent_def)
  note t = eventSlots_permutation
    [of "[fixtureEvent ''b'' 570 585, fixtureEvent ''d'' 540 570, fixtureEvent ''a'' 540 600]"]
  from t have "mset (concat (eventSlots [fixtureEvent ''b'' 570 585, fixtureEvent ''d'' 540 570,
        fixtureEvent ''a'' 540 600]))
      = mset [fixtureEvent ''b'' 570 585, fixtureEvent ''d'' 540 570, fixtureEvent ''a'' 540 600]"
    by (elim conjE)
  moreover from t have "\<forall>s\<in>set (eventSlots [fixtureEvent ''b'' 570 585,
        fixtureEvent ''d'' 540 570, fixtureEvent ''a'' 540 600]). sorted_wrt precedes s"
    by (elim conjE)
  ultimately show ?thesis unfolding run by simp
qed


section \<open>Double arithmetic\<close>


lemma roundTiesToEven_of_int: "roundTiesToEven (real_of_int n) = n"
  by (simp add: roundTiesToEven_def)

text \<open>
  The search ends on the exponent \<open>r\<close> with \<open>x < 2 powi (r + 53)\<close>, and with
  \<open>2 powi (r + 52) \<le> x\<close> unless it is the first one; these two bounds fix it.
\<close>

lemma binade_range: "e \<le> binade n e x \<and> binade n e x \<le> e + int n"
proof (induction n arbitrary: e)
  case 0
  show ?case by simp
next
  case (Suc n)
  from Suc [of "e + 1"] show ?case by auto
qed


lemma binade_lower: "e < binade n e x \<Longrightarrow> 2 powi (binade n e x + 52) \<le> x"
proof (induction n arbitrary: e)
  case 0
  then show ?case by simp
next
  case (Suc n)
  show ?case
  proof (cases "x < 2 powi (e + 53)")
    case True
    with Suc.prems show ?thesis by simp
  next
    case False
    then have r: "binade (Suc n) e x = binade n (e + 1) x" by simp
    show ?thesis
    proof (cases "e + 1 < binade n (e + 1) x")
      case True
      from Suc.IH [OF this] show ?thesis unfolding r .
    next
      case False
      with binade_range [of "e + 1" n x] have "binade n (e + 1) x = e + 1" by simp
      with \<open>\<not> x < 2 powi (e + 53)\<close> show ?thesis
        unfolding r by (simp add: add.commute add.left_commute)
    qed
  qed
qed

lemma two_powi_less_cancel: "(2::real) powi a < 2 powi b \<Longrightarrow> a < b"
proof (rule ccontr)
  assume l: "(2::real) powi a < 2 powi b" and "\<not> a < b"
  then have "b \<le> a" by simp
  then have "(2::real) powi b \<le> 2 powi a" by (intro power_int_increasing) simp_all
  with l show False by simp
qed


lemma ulpExponent_range: "-1074 \<le> ulpExponent x \<and> ulpExponent x \<le> 971"
  using binade_range [of "-1074" 2045 "\<bar>x\<bar>"] by (simp add: ulpExponent_def)

lemma ulpExponent_lower: "-1074 < ulpExponent x \<Longrightarrow> 2 powi (ulpExponent x + 52) \<le> \<bar>x\<bar>"
  unfolding ulpExponent_def by (rule binade_lower)



lemma roundDouble_exact:
  assumes "-1074 \<le> e" and "\<bar>n\<bar> < 2 ^ 53"
  shows "roundDouble (real_of_int n * 2 powi e) = real_of_int n * 2 powi e"
proof -
  define x where "x = real_of_int n * 2 powi e"
  define r where "r = ulpExponent x"
  have le: "r \<le> e"
  proof (rule ccontr)
    assume "\<not> r \<le> e"
    then have l: "e < r" by simp
    with assms(1) have "-1074 < ulpExponent x" by (simp add: r_def)
    from ulpExponent_lower [OF this] have "2 powi (r + 52) \<le> \<bar>x\<bar>" by (simp add: r_def)
    also have "\<bar>x\<bar> = \<bar>real_of_int n\<bar> * 2 powi e" by (simp add: x_def abs_mult)
    also have "\<dots> < 2 ^ 53 * 2 powi e"
    proof -
      from assms(2) have "real_of_int \<bar>n\<bar> < real_of_int (2 ^ 53)"
        by (simp only: of_int_less_iff)
      then have "\<bar>real_of_int n\<bar> < 2 ^ 53" by simp
      then show ?thesis by (intro mult_strict_right_mono) simp_all
    qed
    also have "\<dots> = 2 powi (e + 53)" by (simp add: power_int_add)
    finally have "(2::real) powi (r + 52) < 2 powi (e + 53)" .
    from two_powi_less_cancel [OF this] l show False by simp
  qed
  define k where "k = nat (e - r)"
  have "(2::real) powi e = 2 powi (e - r) * 2 powi r"
    by (simp flip: power_int_add)
  also have "(2::real) powi (e - r) = 2 ^ k"
    using le by (simp add: power_int_def k_def)
  finally have pw: "(2::real) powi e = 2 ^ k * 2 powi r" .
  have "x / 2 powi r = real_of_int n * 2 ^ k"
    by (simp add: x_def pw)
  also have "\<dots> = real_of_int (n * 2 ^ k)" by simp
  finally have "roundTiesToEven (x / 2 powi r) = n * 2 ^ k"
    by (simp only: roundTiesToEven_of_int)
  then have "roundDouble x = real_of_int (n * 2 ^ k) * 2 powi r"
    by (simp only: roundDouble_def r_def)
  also have "\<dots> = x" by (simp add: x_def pw)
  finally show ?thesis by (simp only: x_def)
qed

lemma roundDouble_of_int: "\<bar>n\<bar> < 2 ^ 53 \<Longrightarrow> roundDouble (real_of_int n) = real_of_int n"
  using roundDouble_exact [of 0 n] by simp


lemma roundDouble_dyadic:
  assumes "\<bar>n\<bar> < 2 ^ 53" and "k \<le> 1074"
  shows "roundDouble (real_of_int n / 2 ^ k) = real_of_int n / 2 ^ k"
proof -
  have "(2::real) powi (- int k) = 1 / 2 ^ k"
    by (simp add: power_int_minus field_simps)
  with roundDouble_exact [of "- int k" n] assms show ?thesis by simp
qed

section \<open>The coordinate mapper\<close>

lemma toInteger_nonneg: "0 \<le> x \<Longrightarrow> toInteger x = \<lfloor>x\<rfloor>"
  by (simp add: toInteger_def)

lemma toInteger_of_int: "toInteger (real_of_int k) = k"
  by (simp add: toInteger_def)

lemma minutesFromTop_bounds:
  assumes "startHour p \<le> endHour p"
  shows "0 \<le> minutesFromTop p y"
    and "minutesFromTop p y \<le> real_of_int ((endHour p - startHour p) * 60)"
proof -
  show "0 \<le> minutesFromTop p y" by (simp add: minutesFromTop_def)
  have "0 \<le> real_of_int ((endHour p - startHour p) * 60)" using assms by simp
  then show "minutesFromTop p y \<le> real_of_int ((endHour p - startHour p) * 60)"
    unfolding minutesFromTop_def by (simp add: max_def min_def)
qed

lemma toInteger_minutes_bounds:
  assumes "startHour p \<le> endHour p"
  shows "0 \<le> toInteger (minutesFromTop p y)"
    and "toInteger (minutesFromTop p y) \<le> (endHour p - startHour p) * 60"
proof -
  note b = minutesFromTop_bounds [OF assms, of y]
  have t: "toInteger (minutesFromTop p y) = \<lfloor>minutesFromTop p y\<rfloor>"
    using b(1) by (rule toInteger_nonneg)
  show "0 \<le> toInteger (minutesFromTop p y)" using b(1) by (simp add: t)
  show "toInteger (minutesFromTop p y) \<le> (endHour p - startHour p) * 60"
    unfolding t using b(2) by (simp add: floor_le_iff) 
qed

text \<open>
  Claim C6. For every pointer coordinate, above, inside or below the grid, the minutes
  computed from it lie in the closed interval from 0 to (endHour - startHour) * 60 of a
  window whose start hour is not after its end hour; so do the whole minutes that
  \<^verbatim>\<open>setMinutes\<close> keeps of them, and the instant \<^verbatim>\<open>newDate\<close> lies between the start hour and
  the end hour of the day.
\<close>

theorem pointer_time_within_window:
  assumes "startHour p \<le> endHour p"
  shows "0 \<le> minutesFromTop p y \<and>
         minutesFromTop p y \<le> real_of_int ((endHour p - startHour p) * 60) \<and>
         0 \<le> toInteger (minutesFromTop p y) \<and>
         toInteger (minutesFromTop p y) \<le> (endHour p - startHour p) * 60 \<and>
         localMidnight + startHour p * 3600000 \<le> newDateAt localMidnight p (minutesFromTop p y) \<and>
         newDateAt localMidnight p (minutesFromTop p y) \<le> localMidnight + endHour p * 3600000"
proof -
  note b = minutesFromTop_bounds [OF assms, of y] toInteger_minutes_bounds [OF assms, of y]
  have "newDateAt localMidnight p (minutesFromTop p y)
          = localMidnight + startHour p * 3600000 + toInteger (minutesFromTop p y) * 60000"
    by (simp add: newDateAt_def)
  with b show ?thesis by simp
qed



text \<open>
  The minutes of the pointer offsets of the fixtures, in double arithmetic. All but one
  are computed without a rounding error; at 328 pixels, 328 / 40 is no double, and the
  product with 15 comes out just below 123 (the double printed as 122.99999999999999),
  of which \<^verbatim>\<open>setMinutes\<close> keeps 122.
\<close>

lemma fixture_minutes:
  "minutesFromTop defaultProps (-50) = 0"
  "minutesFromTop defaultProps 100 = 75 / 2"
  "minutesFromTop defaultProps 120 = 45"
  "minutesFromTop defaultProps 600 = 225"
  "minutesFromTop defaultProps 100000 = 1080"
  "minutesFromTop fullDayProps 3840 = 1440"
proof -
  have a: "roundDouble (- (5 / 4)) = - (5 / 4)" "roundDouble (5 / 2) = 5 / 2"
    "roundDouble 3 = 3" "roundDouble 15 = 15" "roundDouble 2500 = 2500" "roundDouble 96 = 96"
    using roundDouble_dyadic [of "-5" 2] roundDouble_dyadic [of 5 1] roundDouble_of_int [of 3]
      roundDouble_of_int [of 15] roundDouble_of_int [of 2500] roundDouble_of_int [of 96]
    by simp_all
  have b: "roundDouble (- (75 / 4)) = - (75 / 4)" "roundDouble (75 / 2) = 75 / 2"
    "roundDouble 45 = 45" "roundDouble 225 = 225" "roundDouble 37500 = 37500"
    "roundDouble 1440 = 1440"
    using roundDouble_dyadic [of "-75" 2] roundDouble_dyadic [of 75 1] roundDouble_of_int [of 45]
      roundDouble_of_int [of 225] roundDouble_of_int [of 37500] roundDouble_of_int [of 1440]
    by simp_all
  show "minutesFromTop defaultProps (-50) = 0"
    by (simp add: minutesFromTop_def defaultProps_def a b)
  show "minutesFromTop defaultProps 100 = 75 / 2"
    by (simp add: minutesFromTop_def defaultProps_def a b)
  show "minutesFromTop defaultProps 120 = 45"
    by (simp add: minutesFromTop_def defaultProps_def a b)
  show "minutesFromTop defaultProps 600 = 225"
    by (simp add: minutesFromTop_def defaultProps_def a b)
  show "minutesFromTop defaultProps 100000 = 1080"
    by (simp add: minutesFromTop_def defaultProps_def a b)
  show "minutesFromTop fullDayProps 3840 = 1440"
    by (simp add: minutesFromTop_def fullDayProps_def a b)
qed



theorem pointer_time_within_window_witness:
  "startHour defaultProps \<le> endHour defaultProps \<and>
   minutesFromTop defaultProps (-50) = 0 \<and>
   minutesFromTop defaultProps 100 = 75 / 2 \<and>
   minutesFromTop defaultProps 100000 = 1080 \<and>
   0 \<le> minutesFromTop defaultProps 100000 \<and>
   minutesFromTop defaultProps 100000
     \<le> real_of_int ((endHour defaultProps - startHour defaultProps) * 60)"
proof -
  have h: "startHour defaultProps \<le> endHour defaultProps"
    by (simp add: defaultProps_def)
  note m = fixture_minutes(1,2,5)
  from pointer_time_within_window [OF h, of 100000 0]
  have "0 \<le> minutesFromTop defaultProps 100000 \<and>
        minutesFromTop defaultProps 100000
          \<le> real_of_int ((endHour defaultProps - startHour defaultProps) * 60)"
    by blast
  with h m show ?thesis by blast
qed

text \<open>The draft of a click on empty space starts inside the window and lasts 30 minutes.\<close>

lemma emptySpaceClick_within_window:
  assumes "startHour p \<le> endHour p"
  shows "\<exists>d. handleEmptySpaceClick p localMidnight True (Some rtop) clientY = Some d \<and>
           localMidnight + startHour p * 3600000 \<le> start d \<and>
           start d \<le> localMidnight + endHour p * 3600000 \<and>
           end_of d = start d + 30 * 60000"
proof -
  note b = toInteger_minutes_bounds [OF assms, of "roundDouble (clientY - rtop)"]
  have "toInteger 30 = 30" using toInteger_of_int [of 30] by simp
  with b show ?thesis
    by (simp add: handleEmptySpaceClick_def Let_def newDateAt_def addMinutes_def)
qed

subsection \<open>From pixels to an instant and back\<close>







section \<open>The drag interpreter\<close>

lemma handleMouseMove_no_container: "handleMouseMove p localMidnight None clientY s = s"
  by (simp add: handleMouseMove_def split: option.splits)

lemma handleMouseMove_dragging:
  "dragging (handleMouseMove p localMidnight rectTop clientY s) = dragging s"
  by (simp add: handleMouseMove_def Let_def split: option.splits)

lemma resize_step:
  assumes "dragging s = Some d" and "drag_type d \<noteq> Move"
    and "ghostEvent s = Some g" and "start g < end_of g"
  shows "\<exists>g'. ghostEvent (handleMouseMove p localMidnight rectTop clientY s) = Some g' \<and>
           start g' < end_of g'"
proof (cases rectTop)
  case None
  with assms show ?thesis by (simp add: handleMouseMove_no_container)
next
  case (Some rtop)
  with assms show ?thesis
    by (cases "drag_type d") (simp_all add: handleMouseMove_def Let_def)
qed

lemma resize_moves:
  assumes "dragging s = Some d" and "drag_type d \<noteq> Move"
    and "ghostEvent s = Some g" and "start g < end_of g"
  shows "\<exists>g'. ghostEvent (pointerMoves p localMidnight moves s) = Some g' \<and>
           start g' < end_of g'"
  using assms
proof (induction moves arbitrary: s g)
  case Nil
  then show ?case by (simp add: pointerMoves_def)
next
  case (Cons mv moves)
  obtain rectTop clientY where mv: "mv = (rectTop, clientY)" by (cases mv)
  let ?s' = "handleMouseMove p localMidnight rectTop clientY s"
  from resize_step [OF Cons.prems, of p localMidnight rectTop clientY]
  obtain g' where g': "ghostEvent ?s' = Some g'" "start g' < end_of g'" by blast
  have d: "dragging ?s' = Some d"
    using Cons.prems(1) by (simp add: handleMouseMove_dragging)
  have "pointerMoves p localMidnight (mv # moves) s = pointerMoves p localMidnight moves ?s'"
    by (simp add: pointerMoves_def mv)
  with Cons.IH [OF d Cons.prems(2) g'] show ?case by simp
qed

text \<open>The pointer positions and durations of the fixtures, evaluated.\<close>

lemma fixture_offsets:
  "roundDouble 100000 = 100000" "roundDouble 600 = 600" "roundDouble 100 = 100"
  "roundDouble (3 / 2) = 3 / 2"
  using roundDouble_of_int [of 100000] roundDouble_of_int [of 600] roundDouble_of_int [of 100]
    roundDouble_dyadic [of 3 1]
  by simp_all

lemma fixture_dates:
  "newDateAt fixtureMidnight defaultProps 1080 = 1704067200000 + 1380 * 60000"
  "newDateAt fixtureMidnight defaultProps 225 = 1704067200000 + 525 * 60000"
  "newDateAt fixtureMidnight defaultProps (75 / 2) = 1704067200000 + 337 * 60000"
  by (simp_all add: newDateAt_def fixtureMidnight_def defaultProps_def toInteger_def)

text \<open>
  Claim C3. In a resize session whose ghost starts before it ends, every pointer move
  leaves a ghost that starts before it ends: a resize of the start sets the start to the
  candidate when the candidate is before the current end and leaves the ghost unchanged
  otherwise; a resize of the end sets the end to the candidate when the candidate is
  after the current start and leaves the ghost unchanged otherwise. Hence the ghost
  starts before it ends after any sequence of pointer moves of the session.
\<close>

theorem resize_keeps_start_before_end:
  assumes "dragging s = Some d" and "drag_type d \<noteq> Move"
    and "ghostEvent s = Some g" and "start g < end_of g"
  shows "(\<exists>g'. ghostEvent (handleMouseMove p localMidnight (Some rtop) clientY s) = Some g' \<and>
            start g' < end_of g' \<and>
            (let candidate = newDateAt localMidnight p (minutesFromTop p (roundDouble (clientY - rtop))) in
               (drag_type d = ResizeTop \<longrightarrow>
                  g' = (if candidate < end_of g then g\<lparr>start := candidate\<rparr> else g)) \<and>
               (drag_type d = ResizeBottom \<longrightarrow>
                  g' = (if candidate > start g then g\<lparr>end_of := candidate\<rparr> else g)))) \<and>
         (\<exists>g'. ghostEvent (pointerMoves p localMidnight moves s) = Some g' \<and>
            start g' < end_of g')"
proof -
  have step: "\<exists>g'. ghostEvent (handleMouseMove p localMidnight (Some rtop) clientY s) = Some g' \<and>
            start g' < end_of g' \<and>
            (let candidate = newDateAt localMidnight p (minutesFromTop p (roundDouble (clientY - rtop))) in
               (drag_type d = ResizeTop \<longrightarrow>
                  g' = (if candidate < end_of g then g\<lparr>start := candidate\<rparr> else g)) \<and>
               (drag_type d = ResizeBottom \<longrightarrow>
                  g' = (if candidate > start g then g\<lparr>end_of := candidate\<rparr> else g)))"
    using assms by (cases "drag_type d") (simp_all add: handleMouseMove_def Let_def)
  from step resize_moves [OF assms] show ?thesis by blast
qed

theorem resize_keeps_start_before_end_witness:
  "ghostEvent (handleMouseMove defaultProps fixtureMidnight (Some 0) 100000
      (handleResizeTop (fixtureEvent ''a'' 540 600) 300 idle))
     = Some (fixtureEvent ''a'' 540 600) \<and>
   ghostEvent (pointerMoves defaultProps fixtureMidnight [(Some 0, 100000), (Some 0, 600)]
      (handleResizeTop (fixtureEvent ''a'' 540 600) 300 idle))
     = Some (fixtureEvent ''a'' 525 600) \<and>
   start (fixtureEvent ''a'' 525 600) < end_of (fixtureEvent ''a'' 525 600) \<and>
   ghostEvent (handleMouseMove defaultProps fixtureMidnight (Some 0) 600
      (handleResizeBottom (fixtureEvent ''a'' 540 600) 300 idle))
     = Some (fixtureEvent ''a'' 540 600) \<and>
   ghostEvent (handleMouseMove defaultProps fixtureMidnight (Some 0) 100000
      (handleResizeBottom (fixtureEvent ''a'' 540 600) 300 idle))
     = Some (fixtureEvent ''a'' 540 1380)"
proof -
  let ?g = "fixtureEvent ''a'' 540 600"
  let ?s = "handleResizeTop ?g 300 idle"
  let ?d = "\<lparr>drag_id = Some ''a'', drag_type = ResizeTop,
             originalStart = 1704067200000 + 540 * 60000,
             originalEnd = 1704067200000 + 600 * 60000, initialY = 300\<rparr>"
  let ?s' = "handleResizeBottom ?g 300 idle"
  let ?d' = "\<lparr>drag_id = Some ''a'', drag_type = ResizeBottom,
             originalStart = 1704067200000 + 540 * 60000,
             originalEnd = 1704067200000 + 600 * 60000, initialY = 300\<rparr>"
  have h: "dragging ?s = Some ?d" "drag_type ?d \<noteq> Move" "ghostEvent ?s = Some ?g"
    "start ?g < end_of ?g"
    by (simp_all add: handleResizeTop_def beginDrag_def idle_def fixtureEvent_def)
  have h': "dragging ?s' = Some ?d'" "drag_type ?d' \<noteq> Move" "ghostEvent ?s' = Some ?g"
    "start ?g < end_of ?g"
    by (simp_all add: handleResizeBottom_def beginDrag_def idle_def fixtureEvent_def)
  note top = resize_keeps_start_before_end [OF h, of defaultProps fixtureMidnight]
  note bot = resize_keeps_start_before_end [OF h', of defaultProps fixtureMidnight]
  from top [of 0 100000 "[]"]
  have one: "ghostEvent (handleMouseMove defaultProps fixtureMidnight (Some 0) 100000 ?s) = Some ?g"
    by (auto simp: fixture_offsets fixture_minutes fixture_dates fixtureEvent_def Let_def)
  have two: "ghostEvent (pointerMoves defaultProps fixtureMidnight [(Some 0, 100000), (Some 0, 600)] ?s)
     = Some (fixtureEvent ''a'' 525 600)"
    by (simp add: pointerMoves_def handleMouseMove_def h fixture_offsets fixture_minutes fixture_dates Let_def)
       (simp add: fixtureEvent_def)
  from top [of 0 0 "[(Some 0, 100000), (Some 0, 600)]"] two
  have three: "start (fixtureEvent ''a'' 525 600) < end_of (fixtureEvent ''a'' 525 600)"
    by auto
  from bot [of 0 600 "[]"]
  have four: "ghostEvent (handleMouseMove defaultProps fixtureMidnight (Some 0) 600 ?s') = Some ?g"
    by (auto simp: fixture_offsets fixture_minutes fixture_dates fixtureEvent_def Let_def)
  from bot [of 0 100000 "[]"]
  have five: "ghostEvent (handleMouseMove defaultProps fixtureMidnight (Some 0) 100000 ?s')
     = Some (fixtureEvent ''a'' 540 1380)"
    by (auto simp: fixture_offsets fixture_minutes fixture_dates fixtureEvent_def Let_def)
  from one two three four five show ?thesis by blast
qed

text \<open>
  A move sets the ghost's start to the pointer's instant and its end to that instant plus
  the whole minutes of the original duration.
\<close>

lemma move_step:
  assumes "dragging s = Some d" and "drag_type d = Move" and "ghostEvent s = Some g"
  shows "ghostEvent (handleMouseMove p localMidnight (Some rtop) clientY s)
           = Some (g\<lparr>start := newDateAt localMidnight p (minutesFromTop p (roundDouble (clientY - rtop))),
                     end_of := newDateAt localMidnight p (minutesFromTop p (roundDouble (clientY - rtop)))
                       + toInteger (roundDouble (real_of_int (originalEnd d - originalStart d) / 60000))
                         * 60000\<rparr>)"
  using assms by (simp add: handleMouseMove_def Let_def addMinutes_def)

text \<open>
  On a duration that is a whole number of minutes (and in the range of the differences
  of two \<^verbatim>\<open>Date\<close> values) nothing is lost: the move keeps the duration.
\<close>

lemma whole_minutes:
  assumes "n mod 60000 = 0" and "\<bar>n\<bar> < 60000 * 2 ^ 53"
  shows "toInteger (roundDouble (real_of_int n / 60000)) * 60000 = n"
proof -
  from assms(1) obtain k where k: "n = 60000 * k" by (auto simp: mod_eq_0_iff_dvd)
  with assms(2) have "\<bar>k\<bar> < 2 ^ 53" by (simp add: abs_mult)
  then have "roundDouble (real_of_int k) = real_of_int k" by (rule roundDouble_of_int)
  moreover have "real_of_int n / 60000 = real_of_int k" by (simp add: k)
  ultimately show ?thesis by (simp add: toInteger_of_int k)
qed

lemma move_keeps_whole_minute_duration:
  assumes "dragging s = Some d" and "drag_type d = Move" and "ghostEvent s = Some g"
    and "(originalEnd d - originalStart d) mod 60000 = 0"
    and "\<bar>originalEnd d - originalStart d\<bar> < 60000 * 2 ^ 53"
  shows "\<exists>g'. ghostEvent (handleMouseMove p localMidnight (Some rtop) clientY s) = Some g' \<and>
           end_of g' - start g' = originalEnd d - originalStart d"
  using move_step [OF assms(1-3), of p localMidnight rtop clientY] whole_minutes [OF assms(4,5)]
  by simp

text \<open>
  Claim C4. The move branch computes the duration of the original event in order to give
  it to the ghost, but hands it to \<^verbatim>\<open>addMinutes\<close> in minutes, and the part of it below a
  whole minute is lost there. At an original event of ninety seconds (09:00:00 to
  09:01:30) and the pointer 100 pixels below the top of the container, the ghost runs
  from 05:37 to 05:38: it lasts sixty seconds, where the claim says ninety.
\<close>

theorem move_truncates_ninety_seconds:
  "ghostEvent (handleMouseMove defaultProps fixtureMidnight (Some 0) 100
      (handleMouseDown 0 ninetySeconds 300 idle))
     = Some (ninetySeconds\<lparr>start := 1704067200000 + 337 * 60000,
                            end_of := 1704067200000 + 338 * 60000\<rparr>) \<and>
   end_of ninetySeconds - start ninetySeconds = 90000 \<and>
   (1704067200000 + 338 * 60000) - (1704067200000 + 337 * 60000) = (60000 :: int)"
  by (simp add: handleMouseMove_def handleMouseDown_def beginDrag_def idle_def fixture_offsets
      fixture_minutes fixture_dates Let_def addMinutes_def toInteger_def ninetySeconds_def)


end
